theory Spec2Isabelle
  imports Main "HOL-Library.Char_ord" "HOL-Library.List_Lexorder"
begin

section \<open>Python values and string formatting\<close>

text \<open>
  The metadata of a LangChain \<open>Document\<close> is a Python dict from strings to values. The
  loader stores the file path (a \<open>str\<close>) under \<open>source\<close> and the page index (an
  \<open>int\<close>) under \<open>page\<close>; \<open>dict.get\<close> yields \<open>None\<close> for an absent key.
\<close>

datatype pyval = PNone | PStr string | PInt int

definition digit :: "nat \<Rightarrow> char" where
  "digit d = char_of (48 + d)"

fun digits :: "nat \<Rightarrow> string" where
  "digits n = (if n < 10 then [digit n] else digits (n div 10) @ [digit (n mod 10)])"

declare digits.simps [simp del]

text \<open>\<open>str(i)\<close> for a Python int: decimal digits, a leading minus sign when negative.\<close>

definition str_int :: "int \<Rightarrow> string" where
  "str_int i = (if i < 0 then CHR ''-'' # digits (nat (- i)) else digits (nat i))"

text \<open>What an f-string field \<open>{v}\<close> renders for a value \<open>v\<close>.\<close>

fun py_format :: "pyval \<Rightarrow> string" where
  "py_format PNone = ''None''"
| "py_format (PStr s) = s"
| "py_format (PInt i) = str_int i"

section \<open>Documents\<close>

record document =
  page_content :: string
  metadata :: "string \<rightharpoonup> pyval"

text \<open>\<open>d.get(k)\<close>: the value under \<open>k\<close>, \<open>None\<close> when the key is absent.\<close>

definition dict_get :: "(string \<rightharpoonup> pyval) \<Rightarrow> string \<Rightarrow> pyval" where
  "dict_get d k = (case d k of None \<Rightarrow> PNone | Some v \<Rightarrow> v)"

datatype error = KeyError string | ValueError | AttributeError string | LoadError | StoreError

text \<open>\<open>d[k]\<close>: raises \<open>KeyError\<close> when the key is absent.\<close>

definition dict_index :: "(string \<rightharpoonup> pyval) \<Rightarrow> string \<Rightarrow> error + pyval" where
  "dict_index d k = (case d k of None \<Rightarrow> Inl (KeyError k) | Some v \<Rightarrow> Inr v)"

section \<open>Chunk identifiers\<close>

text \<open>\<open>page_id = f"{source}:{page}"\<close> of one chunk.\<close>

definition page_id_of :: "document \<Rightarrow> string" where
  "page_id_of chunk =
     (let source = dict_get (metadata chunk) ''source'';
          page = dict_get (metadata chunk) ''page''
      in py_format source @ '':'' @ py_format page)"

text \<open>
  The loop of \<open>calculate_chunk_ids\<close>, with its two variables \<open>last_page_id\<close>
  (\<open>None\<close> before the first chunk) and \<open>chunk_index\<close> passed along. Each list position
  holds a Document object of its own (the splitter builds a new one per chunk), so the
  in-place update of \<open>chunk.metadata\<close> is the update of that list element.
\<close>

fun chunk_loop :: "string option \<Rightarrow> int \<Rightarrow> document list \<Rightarrow> document list" where
  "chunk_loop last_page_id chunk_index [] = []"
| "chunk_loop last_page_id chunk_index (chunk # chunks) =
     (let page_id = page_id_of chunk;
          chunk_index' = (if Some page_id = last_page_id then chunk_index + 1 else 0);
          chunk' = chunk\<lparr>metadata :=
                     (metadata chunk)(''id'' \<mapsto> PStr (page_id @ '':'' @ str_int chunk_index'))\<rparr>
      in chunk' # chunk_loop (Some page_id) chunk_index' chunks)"

definition calculate_chunk_ids :: "document list \<Rightarrow> document list" where
  "calculate_chunk_ids chunks = chunk_loop None 0 chunks"

subsection \<open>The loop with its one way to raise\<close>

text \<open>
  Nothing in \<open>calculate_chunk_ids\<close> raises on an absent key: the metadata is read with
  \<open>dict.get\<close> and written by assignment. The f-strings can raise: CPython (3.11 and
  later) refuses to convert an \<open>int\<close> of more than \<open>sys.get_int_max_str_digits()\<close>
  decimal digits, 4300 unless reconfigured, with a \<open>ValueError\<close>; the sign is not
  counted.
\<close>

definition int_max_str_digits :: nat where
  "int_max_str_digits = 4300"

definition py_str :: "int \<Rightarrow> error + string" where
  "py_str i =
     (if int_max_str_digits < length (digits (nat \<bar>i\<bar>)) then Inl ValueError
      else Inr (str_int i))"

fun format_field :: "pyval \<Rightarrow> error + string" where
  "format_field PNone = Inr ''None''"
| "format_field (PStr s) = Inr s"
| "format_field (PInt i) = py_str i"

text \<open>The values an f-string field renders without raising.\<close>

fun renders :: "pyval \<Rightarrow> bool" where
  "renders (PInt i) = (length (digits (nat \<bar>i\<bar>)) \<le> int_max_str_digits)"
| "renders v = True"

text \<open>
  The loop again, every conversion checked, in the order the source evaluates them:
  source, page, then the counter. \<open>Inl\<close> is the exception that leaves the function.
\<close>

fun chunk_loop_exn ::
    "string option \<Rightarrow> int \<Rightarrow> document list \<Rightarrow> error + document list" where
  "chunk_loop_exn last_page_id chunk_index [] = Inr []"
| "chunk_loop_exn last_page_id chunk_index (chunk # chunks) =
     (case format_field (dict_get (metadata chunk) ''source'') of
        Inl e \<Rightarrow> Inl e
      | Inr source \<Rightarrow>
     (case format_field (dict_get (metadata chunk) ''page'') of
        Inl e \<Rightarrow> Inl e
      | Inr page \<Rightarrow>
     (let page_id = source @ '':'' @ page;
          chunk_index' = (if Some page_id = last_page_id then chunk_index + 1 else 0)
      in case py_str chunk_index' of
           Inl e \<Rightarrow> Inl e
         | Inr index \<Rightarrow>
             (let chunk' = chunk\<lparr>metadata :=
                             (metadata chunk)(''id'' \<mapsto> PStr (page_id @ '':'' @ index))\<rparr>
              in case chunk_loop_exn (Some page_id) chunk_index' chunks of
                   Inl e \<Rightarrow> Inl e
                 | Inr rest \<Rightarrow> Inr (chunk' # rest)))))"

definition calculate_chunk_ids_exn :: "document list \<Rightarrow> error + document list" where
  "calculate_chunk_ids_exn chunks = chunk_loop_exn None 0 chunks"

subsection \<open>The fold of the specification\<close>

text \<open>
  The algorithm as the specification words it: a state of a cursor (initially unset) and
  a counter (initially 0), and one step per chunk, in order, that computes the page id,
  increments or resets the counter, sets the chunk's id and moves the cursor.
\<close>

record fold_state =
  cursor :: "string option"
  counter :: int
  done_chunks :: "document list"

definition spec_step :: "fold_state \<Rightarrow> document \<Rightarrow> fold_state" where
  "spec_step st chunk =
     (let page_id = py_format (dict_get (metadata chunk) ''source'') @ '':'' @
                    py_format (dict_get (metadata chunk) ''page'');
          n = (if cursor st = Some page_id then counter st + 1 else 0)
      in \<lparr>cursor = Some page_id, counter = n,
          done_chunks = done_chunks st @
            [chunk\<lparr>metadata := (metadata chunk)(''id'' \<mapsto> PStr (page_id @ '':'' @ str_int n))\<rparr>]\<rparr>)"

definition spec_assign_ids :: "document list \<Rightarrow> document list" where
  "spec_assign_ids chunks =
     done_chunks (foldl spec_step \<lparr>cursor = None, counter = 0, done_chunks = []\<rparr> chunks)"

subsection \<open>Grouping\<close>

text \<open>The id string stored on a chunk, if any.\<close>

definition chunk_id :: "document \<Rightarrow> pyval option" where
  "chunk_id chunk = metadata chunk ''id''"

text \<open>The \<open>(source, page)\<close> pair of a chunk, as \<open>dict.get\<close> reads it.\<close>

definition source_page :: "document \<Rightarrow> pyval \<times> pyval" where
  "source_page chunk = (dict_get (metadata chunk) ''source'', dict_get (metadata chunk) ''page'')"

text \<open>
  A list is grouped when equal elements are contiguous: once the run of an element has
  ended, the element does not come back.
\<close>

fun grouped :: "'a list \<Rightarrow> bool" where
  "grouped [] = True"
| "grouped (x # xs) = (x \<notin> set (dropWhile (\<lambda>y. y = x) xs) \<and> grouped xs)"

text \<open>
  The page ids of a list of chunks with the counter value the loop reaches at each,
  from a given cursor and counter: the loop's control state without the documents.
\<close>

fun labels :: "string option \<Rightarrow> int \<Rightarrow> string list \<Rightarrow> (string \<times> int) list" where
  "labels last_page_id chunk_index [] = []"
| "labels last_page_id chunk_index (page_id # rest) =
     (let chunk_index' = (if Some page_id = last_page_id then chunk_index + 1 else 0)
      in (page_id, chunk_index') # labels (Some page_id) chunk_index' rest)"

definition render :: "string \<times> int \<Rightarrow> pyval option" where
  "render l = Some (PStr (fst l @ '':'' @ str_int (snd l)))"

text \<open>A chunk as the PDF loader makes it: a string source and an integer page.\<close>

fun loader_typed :: "document \<Rightarrow> bool" where
  "loader_typed chunk =
     (case source_page chunk of (PStr s, PInt i) \<Rightarrow> True | _ \<Rightarrow> False)"

text \<open>The page id as a function of the \<open>(source, page)\<close> pair.\<close>

definition page_id_of_pair :: "pyval \<times> pyval \<Rightarrow> string" where
  "page_id_of_pair sp = py_format (fst sp) @ '':'' @ py_format (snd sp)"

text \<open>Concrete chunk lists: loader chunks are built by \<open>mk_chunk\<close>.\<close>

definition mk_chunk :: "string \<Rightarrow> string \<Rightarrow> int \<Rightarrow> document" where
  "mk_chunk text src pg =
     \<lparr>page_content = text, metadata = [''source'' \<mapsto> PStr src, ''page'' \<mapsto> PInt pg]\<rparr>"

text \<open>Two chunks of page 0 and one of page 1 of \<open>a.pdf\<close>, in document order.\<close>

definition sample_chunks :: "document list" where
  "sample_chunks =
     [mk_chunk ''t0'' ''a.pdf'' 0, mk_chunk ''t1'' ''a.pdf'' 0, mk_chunk ''t2'' ''a.pdf'' 1]"

text \<open>Three chunks of one page.\<close>

definition same_page_chunks :: "document list" where
  "same_page_chunks =
     [mk_chunk ''t0'' ''a.pdf'' 3, mk_chunk ''t1'' ''a.pdf'' 3, mk_chunk ''t2'' ''a.pdf'' 3]"

text \<open>Page 0, page 1, and page 0 again: the groups are interleaved.\<close>

definition interleaved_chunks :: "document list" where
  "interleaved_chunks =
     [mk_chunk ''t0'' ''a.pdf'' 0, mk_chunk ''t1'' ''a.pdf'' 1, mk_chunk ''t2'' ''a.pdf'' 0]"

text \<open>
  Three chunks of page 1 with three different sources: none (the key is absent), the
  string \<open>x\<close>, and the string \<open>None\<close>.
\<close>

definition none_source_chunks :: "document list" where
  "none_source_chunks =
     [\<lparr>page_content = ''t0'', metadata = [''page'' \<mapsto> PInt 1]\<rparr>,
      mk_chunk ''t1'' ''x'' 1,
      mk_chunk ''t2'' ''None'' 1]"

text \<open>
  A loader chunk, two chunks with no metadata at all, and a chunk with a page but no
  source.
\<close>

definition bare_chunks :: "document list" where
  "bare_chunks =
     [mk_chunk ''t0'' ''a.pdf'' 0,
      \<lparr>page_content = ''t1'', metadata = Map.empty\<rparr>,
      \<lparr>page_content = ''t2'', metadata = Map.empty\<rparr>,
      \<lparr>page_content = ''t3'', metadata = [''page'' \<mapsto> PInt 4]\<rparr>]"

section \<open>The ingestion driver\<close>

text \<open>
  What the driver does to the outside world is recorded as a trace of events: the
  console lines it prints, the removal of the store directory, each construction of a
  store client, each fetch of the stored ids with its result, each insertion with the
  ids it passes, and each flush.
\<close>

datatype message =
    Clearing
  | DirNotFound string
  | NoPdfFound string
  | Found nat string
  | FileName string
  | Ingesting string
  | Adding nat
  | AllInDb

datatype event =
    Print message
  | Rmtree
  | Connect
  | Fetch "string list"
  | AddDocuments "pyval list"
  | Persist

text \<open>
  The world: the store directory \<open>CHROMA_DIR\<close> (\<open>None\<close> when it does not exist,
  otherwise the store persisted in it) and the trace so far.
\<close>

record 'db world =
  chroma_dir :: "'db option"
  trace :: "event list"

text \<open>
  The external collaborators, taken as parameters: the file system under the data root
  (\<open>is_dir d\<close> and \<open>glob_pdf d\<close> answer for \<open>DATA_DIR / d\<close>), the PDF loader, the
  splitter, and the vector store client. \<open>connect\<close> is the constructor
  \<open>Chroma(persist_directory=CHROMA_DIR, ...)\<close> applied to what the directory holds;
  \<open>get_ids\<close> is \<open>db.get(include=[])["ids"]\<close>; \<open>add_documents\<close> returns the store
  after the call and the exception it raised, if any; \<open>persist\<close> is the call
  \<open>db.persist()\<close> with the exception it raised, if any. The class \<open>Chroma\<close> of
  \<open>langchain_chroma\<close>, which the source imports, has no method \<open>persist\<close>: there the
  call raises \<open>AttributeError\<close> after every insertion. Loading, connecting, inserting
  and flushing can fail; the driver catches nothing.
\<close>

record 'db env =
  is_dir :: "string \<Rightarrow> bool"
  glob_pdf :: "string \<Rightarrow> string list"
  load_documents :: "string \<Rightarrow> error + document list"
  split_documents :: "document list \<Rightarrow> document list"
  connect :: "'db option \<Rightarrow> error + 'db"
  get_ids :: "'db \<Rightarrow> string list"
  add_documents :: "'db \<Rightarrow> document list \<Rightarrow> pyval list \<Rightarrow> 'db \<times> error option"
  persist :: "'db \<Rightarrow> error option"

definition emit :: "event \<Rightarrow> 'db world \<Rightarrow> 'db world" where
  "emit e w = w\<lparr>trace := trace w @ [e]\<rparr>"

definition clear_database :: "'db world \<Rightarrow> 'db world" where
  "clear_database w =
     (if chroma_dir w \<noteq> None then emit Rmtree (w\<lparr>chroma_dir := None\<rparr>) else w)"

text \<open>\<open>[c for c in chunks if c.metadata["id"] not in existing]\<close>\<close>

fun select_new :: "pyval set \<Rightarrow> document list \<Rightarrow> error + document list" where
  "select_new existing [] = Inr []"
| "select_new existing (c # cs) =
     (case dict_index (metadata c) ''id'' of
        Inl e \<Rightarrow> Inl e
      | Inr v \<Rightarrow>
          (case select_new existing cs of
             Inl e \<Rightarrow> Inl e
           | Inr r \<Rightarrow> Inr (if v \<notin> existing then c # r else r)))"

text \<open>\<open>[c.metadata["id"] for c in new_chunks]\<close>\<close>

fun index_ids :: "document list \<Rightarrow> error + pyval list" where
  "index_ids [] = Inr []"
| "index_ids (c # cs) =
     (case dict_index (metadata c) ''id'' of
        Inl e \<Rightarrow> Inl e
      | Inr v \<Rightarrow> (case index_ids cs of Inl e \<Rightarrow> Inl e | Inr vs \<Rightarrow> Inr (v # vs)))"

text \<open>
  \<open>add_to_db\<close>. A run that raises ends in \<open>Inl\<close> with the exception and the world it
  leaves behind. Constructing the client (and the \<open>mkdir\<close> after it) leaves the store
  directory in existence; what \<open>add_documents\<close> wrote stays written when the flush
  after it raises. The chunks of the driver come from the loader, whose page numbers are
  far below the conversion limit, so the driver is given the loop without the limit
  (\<open>exn_agrees\<close> below).
\<close>

definition add_to_db ::
    "'db env \<Rightarrow> document list \<Rightarrow> 'db world \<Rightarrow> (error \<times> 'db world) + 'db world" where
  "add_to_db env chunks w =
     (let w1 = emit Connect w in
      case connect env (chroma_dir w1) of
        Inl e \<Rightarrow> Inl (e, w1)
      | Inr db \<Rightarrow>
          (let w2 = w1\<lparr>chroma_dir := Some db\<rparr>;
               items = get_ids env db;
               w3 = emit (Fetch items) w2;
               existing = PStr ` set items
           in case select_new existing (calculate_chunk_ids chunks) of
                Inl e \<Rightarrow> Inl (e, w3)
              | Inr new_chunks \<Rightarrow>
                  if new_chunks \<noteq> [] then
                    (let w4 = emit (Print (Adding (length new_chunks))) w3 in
                     case index_ids new_chunks of
                       Inl e \<Rightarrow> Inl (e, w4)
                     | Inr ids \<Rightarrow>
                         (case add_documents env db new_chunks ids of
                            (db', Some e) \<Rightarrow>
                              Inl (e, emit (AddDocuments ids) (w4\<lparr>chroma_dir := Some db'\<rparr>))
                          | (db', None) \<Rightarrow>
                              (let w5 = emit (AddDocuments ids) (w4\<lparr>chroma_dir := Some db'\<rparr>)
                               in case persist env db' of
                                    Some e \<Rightarrow> Inl (e, w5)
                                  | None \<Rightarrow> Inr (emit Persist w5))))
                  else Inr (emit (Print AllInDb) w3)))"

text \<open>The loop of \<open>main\<close> over the PDF files.\<close>

fun ingest_files ::
    "'db env \<Rightarrow> string list \<Rightarrow> 'db world \<Rightarrow> (error \<times> 'db world) + 'db world" where
  "ingest_files env [] w = Inr w"
| "ingest_files env (pdf_path # rest) w =
     (let w1 = emit (Print (Ingesting pdf_path)) w in
      case load_documents env pdf_path of
        Inl e \<Rightarrow> Inl (e, w1)
      | Inr docs \<Rightarrow>
          (case add_to_db env (split_documents env docs) w1 of
             Inl r \<Rightarrow> Inl r
           | Inr w2 \<Rightarrow> ingest_files env rest w2))"

text \<open>The parsed command line: \<open>--reset\<close> and \<open>--dir\<close>.\<close>

record args =
  reset :: bool
  dir :: string

text \<open>
  \<open>main\<close>, after argument parsing. \<open>Inr\<close> is a normal return. Paths in one directory
  are sorted as their names are, character by character.
\<close>

definition main :: "'db env \<Rightarrow> args \<Rightarrow> 'db world \<Rightarrow> (error \<times> 'db world) + 'db world" where
  "main env a w =
     (let w1 = (if reset a then clear_database (emit (Print Clearing) w) else w) in
      if \<not> is_dir env (dir a) then Inr (emit (Print (DirNotFound (dir a))) w1)
      else
        (let pdf_files = sort (glob_pdf env (dir a)) in
         if pdf_files = [] then Inr (emit (Print (NoPdfFound (dir a))) w1)
         else
           (let w2 = emit (Print (Found (length pdf_files) (dir a))) w1;
                w3 = foldl (\<lambda>w p. emit (Print (FileName p)) w) w2 pdf_files
            in ingest_files env pdf_files w3)))"

text \<open>The world in which a run ends, normally or not.\<close>

fun final_world :: "(error \<times> 'db world) + 'db world \<Rightarrow> 'db world" where
  "final_world (Inl (e, w)) = w"
| "final_world (Inr w) = w"

text \<open>The events a run of \<open>main\<close> adds to the trace.\<close>

definition run_events :: "'db env \<Rightarrow> args \<Rightarrow> 'db world \<Rightarrow> event list" where
  "run_events env a w = drop (length (trace w)) (trace (final_world (main env a w)))"

text \<open>The results of the fetches in a list of events, in order.\<close>

fun fetched :: "event list \<Rightarrow> string list list" where
  "fetched [] = []"
| "fetched (Fetch ids # es) = ids # fetched es"
| "fetched (e # es) = fetched es"

text \<open>The events that touch the vector store.\<close>

fun store_event :: "event \<Rightarrow> bool" where
  "store_event (Print m) = False"
| "store_event Rmtree = False"
| "store_event e = True"

subsection \<open>A small concrete environment\<close>

text \<open>
  A store kept as a list of ids with their documents, whose \<open>persist\<close> raises as that
  of \<open>langchain_chroma\<close> does, and a data root with a directory \<open>sample\<close> of two files
  and a directory \<open>empty\<close> of none; used to run the driver on concrete inputs.
\<close>

type_synonym list_store = "(string \<times> document) list"

definition sample_env :: "list_store env" where
  "sample_env =
     \<lparr>is_dir = (\<lambda>d. d = ''sample'' \<or> d = ''empty''),
      glob_pdf = (\<lambda>d. if d = ''sample'' then [''b.pdf'', ''a.pdf''] else []),
      load_documents = (\<lambda>p. Inr [mk_chunk ''text'' p 0]),
      split_documents = (\<lambda>docs. docs),
      connect = (\<lambda>d. case d of None \<Rightarrow> Inr [] | Some db \<Rightarrow> Inr db),
      get_ids = map fst,
      add_documents = (\<lambda>db docs ids. (db @ zip (map py_format ids) docs, None)),
      persist = (\<lambda>db. Some (AttributeError ''persist''))\<rparr>"

text \<open>
  A world whose store holds one document, and a world whose store holds the chunks of
  \<open>sample_chunks\<close> under their ids.
\<close>

definition old_world :: "list_store world" where
  "old_world = \<lparr>chroma_dir = Some [(''old.pdf:0:0'', mk_chunk ''old'' ''old.pdf'' 0)], trace = []\<rparr>"

definition stored_world :: "list_store world" where
  "stored_world =
     \<lparr>chroma_dir = Some (zip [''a.pdf:0:0'', ''a.pdf:0:1'', ''a.pdf:1:0'']
                            (calculate_chunk_ids sample_chunks)),
      trace = []\<rparr>"

section \<open>Decimal rendering is injective and free of colons\<close>

lemma of_char_digit: "d < 10 \<Longrightarrow> of_char (digit d) = 48 + d"
  by (simp add: digit_def)

lemma digit_inj: "a < 10 \<Longrightarrow> b < 10 \<Longrightarrow> digit a = digit b \<Longrightarrow> a = b"
  using of_char_digit [of a] of_char_digit [of b] by (metis add_left_cancel)

lemma digit_not_colon: "d < 10 \<Longrightarrow> digit d \<noteq> CHR '':''"
  using of_char_digit [of d] by auto

lemma digit_not_minus: "d < 10 \<Longrightarrow> digit d \<noteq> CHR ''-''"
  using of_char_digit [of d] by auto

lemma digits_not_Nil: "digits n \<noteq> []"
  by (subst digits.simps) simp

lemma colon_notin_digits: "CHR '':'' \<notin> set (digits n)"
proof (induction n rule: digits.induct)
  case (1 n)
  show ?case
  proof (cases "n < 10")
    case True
    then show ?thesis using digit_not_colon [of n] by (subst digits.simps) auto
  next
    case False
    moreover have "digit (n mod 10) \<noteq> CHR '':''" by (rule digit_not_colon) simp
    ultimately show ?thesis using 1 by (subst digits.simps) auto
  qed
qed

lemma minus_notin_digits: "CHR ''-'' \<notin> set (digits n)"
proof (induction n rule: digits.induct)
  case (1 n)
  show ?case
  proof (cases "n < 10")
    case True
    then show ?thesis using digit_not_minus [of n] by (subst digits.simps) auto
  next
    case False
    moreover have "digit (n mod 10) \<noteq> CHR ''-''" by (rule digit_not_minus) simp
    ultimately show ?thesis using 1 by (subst digits.simps) auto
  qed
qed

lemma digits_inj: "digits n = digits m \<Longrightarrow> n = m"
proof (induction n arbitrary: m rule: digits.induct)
  case (1 n)
  show ?case
  proof (cases "n < 10")
    case n: True
    show ?thesis
    proof (cases "m < 10")
      case True
      with n 1(2) show ?thesis
        by (simp add: digits.simps [of n] digits.simps [of m] digit_inj)
    next
      case False
      with n 1(2) digits_not_Nil [of "m div 10"] show ?thesis
        by (simp add: digits.simps [of n] digits.simps [of m])
    qed
  next
    case n: False
    show ?thesis
    proof (cases "m < 10")
      case True
      with n 1(2) digits_not_Nil [of "n div 10"] show ?thesis
        by (simp add: digits.simps [of n] digits.simps [of m])
    next
      case False
      with n 1(2) have eq: "digits (n div 10) = digits (m div 10)"
        and d: "digit (n mod 10) = digit (m mod 10)"
        by (simp_all add: digits.simps [of n] digits.simps [of m])
      from 1(1) [OF n eq] have "n div 10 = m div 10" .
      moreover from d have "n mod 10 = m mod 10" by (intro digit_inj) simp_all
      ultimately show ?thesis by (metis div_mult_mod_eq)
    qed
  qed
qed

lemma colon_notin_str_int: "CHR '':'' \<notin> set (str_int i)"
  by (simp add: str_int_def colon_notin_digits)

lemma str_int_inj: "str_int i = str_int j \<Longrightarrow> i = j"
proof -
  assume eq: "str_int i = str_int j"
  have hd: "\<And>n. hd (digits n) \<noteq> CHR ''-''"
    using minus_notin_digits digits_not_Nil by (metis hd_in_set)
  show ?thesis
  proof (cases "i < 0")
    case i: True
    show ?thesis
    proof (cases "j < 0")
      case True
      with i eq have "nat (- i) = nat (- j)" by (simp add: str_int_def digits_inj)
      with i True show ?thesis by simp
    next
      case False
      with i eq hd [of "nat j"] show ?thesis by (metis list.sel(1) str_int_def)
    qed
  next
    case i: False
    show ?thesis
    proof (cases "j < 0")
      case True
      with i eq hd [of "nat i"] show ?thesis by (metis list.sel(1) str_int_def)
    next
      case False
      with i eq have "nat i = nat j" by (simp add: str_int_def digits_inj)
      with i False show ?thesis by simp
    qed
  qed
qed

lemma append_sep_inj:
  assumes "a @ c # s = b @ c # t" "c \<notin> set s" "c \<notin> set t"
  shows "a = b \<and> s = t"
  using assms
proof (induction a arbitrary: b)
  case Nil
  then show ?case by (cases b) auto
next
  case (Cons x a)
  then show ?case by (cases b) auto
qed

section \<open>Grouped lists\<close>

text \<open>
  \<open>grouped\<close> is contiguity of equal elements: whenever two positions hold the same
  element, so does every position between them.
\<close>

lemma after_run_in_dropWhile:
  assumes "j < k" "k < length xs" "xs ! j \<noteq> x"
  shows "xs ! k \<in> set (dropWhile (\<lambda>y. y = x) xs)"
proof -
  let ?t = "takeWhile (\<lambda>y. y = x) xs" and ?d = "dropWhile (\<lambda>y. y = x) xs"
  have "length ?t \<le> j"
  proof (rule ccontr)
    assume "\<not> length ?t \<le> j"
    then have j: "j < length ?t" by simp
    then have "?t ! j \<in> set ?t" by (rule nth_mem)
    then have "?t ! j = x" by (rule set_takeWhileD [THEN conjunct2])
    moreover from j have "?t ! j = xs ! j" by (rule takeWhile_nth)
    ultimately show False using assms(3) by simp
  qed
  with assms(1) have le: "length ?t \<le> k" by simp
  have "(?t @ ?d) ! (length ?t + (k - length ?t)) = ?d ! (k - length ?t)"
    by (rule nth_append_length_plus)
  with le have "xs ! k = ?d ! (k - length ?t)"
    by (simp only: takeWhile_dropWhile_id le_add_diff_inverse)
  moreover have "length xs = length ?t + length ?d"
    by (simp only: length_append [symmetric] takeWhile_dropWhile_id)
  with assms(2) le have "k - length ?t < length ?d" by simp
  ultimately show ?thesis by simp
qed

lemma grouped_contiguous:
  "grouped xs =
     (\<forall>i j k. i < j \<and> j < k \<and> k < length xs \<and> xs ! i = xs ! k \<longrightarrow> xs ! j = xs ! i)"
proof (induction xs)
  case Nil
  show ?case by simp
next
  case (Cons x xs)
  let ?C = "\<lambda>ys. \<forall>i j k. i < j \<and> j < k \<and> k < length ys \<and> ys ! i = ys ! k \<longrightarrow> ys ! j = ys ! i"
  show ?case
  proof
    assume g: "grouped (x # xs)"
    then have nx: "x \<notin> set (dropWhile (\<lambda>y. y = x) xs)" and "grouped xs"
      by simp_all
    then have gx: "?C xs" unfolding Cons.IH by blast
    show "?C (x # xs)"
    proof (intro allI impI)
      fix i j k
      assume a: "i < j \<and> j < k \<and> k < length (x # xs) \<and> (x # xs) ! i = (x # xs) ! k"
      then have "0 < j" "0 < k" by linarith+
      then obtain j' k' where j: "j = Suc j'" and k: "k = Suc k'"
        using gr0_implies_Suc by blast
      show "(x # xs) ! j = (x # xs) ! i"
      proof (cases i)
        case 0
        with a j k have xk: "xs ! k' = x" and lt: "j' < k'" "k' < length xs" by simp_all
        have "xs ! j' = x"
        proof (rule ccontr)
          assume "xs ! j' \<noteq> x"
          with lt have "xs ! k' \<in> set (dropWhile (\<lambda>y. y = x) xs)"
            by (rule after_run_in_dropWhile)
          with xk nx show False by simp
        qed
        with 0 j show ?thesis by simp
      next
        case (Suc i')
        with a j k have "i' < j' \<and> j' < k' \<and> k' < length xs \<and> xs ! i' = xs ! k'" by simp
        with gx have "xs ! j' = xs ! i'" by blast
        with Suc j show ?thesis by simp
      qed
    qed
  next
    assume c: "?C (x # xs)"
    have "?C xs"
    proof (intro allI impI)
      fix i j k
      assume "i < j \<and> j < k \<and> k < length xs \<and> xs ! i = xs ! k"
      then have "Suc i < Suc j \<and> Suc j < Suc k \<and> Suc k < length (x # xs) \<and>
                 (x # xs) ! Suc i = (x # xs) ! Suc k" by simp
      with c have "(x # xs) ! Suc j = (x # xs) ! Suc i" by blast
      then show "xs ! j = xs ! i" by simp
    qed
    then have gx: "grouped xs" unfolding Cons.IH .
    have "x \<notin> set (dropWhile (\<lambda>y. y = x) xs)"
    proof
      let ?t = "takeWhile (\<lambda>y. y = x) xs" and ?d = "dropWhile (\<lambda>y. y = x) xs"
      assume "x \<in> set ?d"
      then obtain m where m: "m < length ?d" "?d ! m = x"
        unfolding in_set_conv_nth by blast
      then have ne: "?d \<noteq> []" by (cases ?d) simp_all
      then have h: "hd ?d \<noteq> x" by (rule hd_dropWhile)
      have len: "length xs = length ?t + length ?d"
        by (simp only: length_append [symmetric] takeWhile_dropWhile_id)
      have "(?t @ ?d) ! (length ?t + 0) = ?d ! 0" by (rule nth_append_length_plus)
      then have n: "xs ! length ?t = hd ?d"
        by (simp only: takeWhile_dropWhile_id add_0_right hd_conv_nth [OF ne])
      have "(?t @ ?d) ! (length ?t + m) = ?d ! m" by (rule nth_append_length_plus)
      with m(2) have k: "xs ! (length ?t + m) = x"
        by (simp only: takeWhile_dropWhile_id)
      have "m \<noteq> 0"
      proof
        assume "m = 0"
        with m(2) hd_conv_nth [OF ne] h show False by simp
      qed
      then have "0 < Suc (length ?t) \<and> Suc (length ?t) < Suc (length ?t + m) \<and>
          Suc (length ?t + m) < length (x # xs) \<and>
          (x # xs) ! 0 = (x # xs) ! Suc (length ?t + m)"
        using m(1) k len by simp
      with c have "(x # xs) ! Suc (length ?t) = (x # xs) ! 0" by blast
      with n h show False by simp
    qed
    with gx show "grouped (x # xs)" by simp
  qed
qed

section \<open>Properties of the identifier assignment\<close>

lemma foldl_spec_step:
  "done_chunks (foldl spec_step st chunks) =
     done_chunks st @ chunk_loop (cursor st) (counter st) chunks"
proof (induction chunks arbitrary: st)
  case Nil
  show ?case by simp
next
  case (Cons c cs)
  have step: "cursor (spec_step st c) = Some (page_id_of c)"
    "counter (spec_step st c) = (if Some (page_id_of c) = cursor st then counter st + 1 else 0)"
    "done_chunks (spec_step st c) = done_chunks st @
       [c\<lparr>metadata := (metadata c)(''id'' \<mapsto> PStr (page_id_of c @ '':'' @
          str_int (if Some (page_id_of c) = cursor st then counter st + 1 else 0)))\<rparr>]"
    by (auto simp: spec_step_def page_id_of_def Let_def)
  have "done_chunks (foldl spec_step st (c # cs)) =
        done_chunks (spec_step st c) @
          chunk_loop (cursor (spec_step st c)) (counter (spec_step st c)) cs"
    using Cons.IH [of "spec_step st c"] by simp
  also have "\<dots> = done_chunks st @ chunk_loop (cursor st) (counter st) (c # cs)"
    unfolding step by (simp add: Let_def)
  finally show ?case .
qed

text \<open>
  C1: for every list of chunks, \<open>calculate_chunk_ids\<close> computes exactly the left-to-right
  fold of the specification: cursor initially unset, counter initially 0, and per chunk
  the page id \<open>source:page\<close>, the counter incremented when the page id equals the cursor
  and reset to 0 otherwise, the id \<open>page_id:counter\<close>, and the cursor moved to the page id.
\<close>

theorem calculate_chunk_ids_is_spec_fold:
  "calculate_chunk_ids chunks = spec_assign_ids chunks"
proof -
  have "done_chunks (foldl spec_step \<lparr>cursor = None, counter = 0, done_chunks = []\<rparr> chunks)
        = chunk_loop None 0 chunks"
    by (simp add: foldl_spec_step)
  then show ?thesis
    by (simp add: calculate_chunk_ids_def spec_assign_ids_def)
qed

subsection \<open>The counters of the loop\<close>

lemma str_int_eq_iff: "(str_int i = str_int j) = (i = j)"
  using str_int_inj by blast

lemma page_id_of_set_id:
  "page_id_of (c\<lparr>metadata := (metadata c)(''id'' \<mapsto> v)\<rparr>) = page_id_of c"
  by (simp add: page_id_of_def dict_get_def)

lemma chunk_ids_labels:
  "map chunk_id (chunk_loop l k cs) = map render (labels l k (map page_id_of cs))"
  by (induction cs arbitrary: l k) (simp_all add: Let_def chunk_id_def render_def page_id_of_set_id)

lemma length_chunk_loop [simp]: "length (chunk_loop l k cs) = length cs"
  by (induction cs arbitrary: l k) (simp_all add: Let_def)

lemma length_labels [simp]: "length (labels l k ps) = length ps"
  by (induction ps arbitrary: l k) (simp_all add: Let_def)

lemma fst_labels: "map fst (labels l k ps) = ps"
  by (induction ps arbitrary: l k) (simp_all add: Let_def)

lemma labels_gt:
  "(p, n) \<in> set (labels (Some p) k ps) \<Longrightarrow> p \<notin> set (dropWhile (\<lambda>y. y = p) ps) \<Longrightarrow> k < n"
proof (induction ps arbitrary: k)
  case Nil
  then show ?case by simp
next
  case (Cons q qs)
  show ?case
  proof (cases "q = p")
    case True
    with Cons.prems have "n = k + 1 \<or> (p, n) \<in> set (labels (Some p) (k + 1) qs)"
      and "p \<notin> set (dropWhile (\<lambda>y. y = p) qs)"
      by (auto simp: Let_def)
    then show ?thesis using Cons.IH [of "k + 1"] by auto
  next
    case False
    with Cons.prems(2) have "p \<notin> set (q # qs)" by simp
    moreover from Cons.prems(1) have "p \<in> fst ` set (labels (Some p) k (q # qs))"
      by force
    ultimately show ?thesis using fst_labels [of "Some p" k "q # qs"]
      by (metis set_map)
  qed
qed

lemma distinct_labels: "grouped ps \<Longrightarrow> distinct (labels l k ps)"
proof (induction ps arbitrary: l k)
  case Nil
  show ?case by simp
next
  case (Cons p ps)
  let ?n = "if Some p = l then k + 1 else 0"
  from Cons.prems have g: "p \<notin> set (dropWhile (\<lambda>y. y = p) ps)" "grouped ps" by simp_all
  have "(p, ?n) \<notin> set (labels (Some p) ?n ps)"
    using labels_gt [OF _ g(1), of ?n ?n] by auto
  moreover have "distinct (labels (Some p) ?n ps)" using Cons.IH [OF g(2)] .
  ultimately show ?case by (simp add: Let_def)
qed

lemma render_inj: "render a = render b \<Longrightarrow> a = b"
proof -
  assume "render a = render b"
  then have "fst a @ CHR '':'' # str_int (snd a) = fst b @ CHR '':'' # str_int (snd b)"
    by (simp add: render_def)
  then have "fst a = fst b \<and> str_int (snd a) = str_int (snd b)"
    by (rule append_sep_inj) (rule colon_notin_str_int)+
  then show ?thesis by (simp add: str_int_eq_iff prod_eq_iff)
qed

lemma labels_nth_fst: "i < length ps \<Longrightarrow> fst (labels l k ps ! i) = ps ! i"
  using fst_labels [of l k ps] by (metis length_labels nth_map)

lemma labels_nth_reset:
  "i < length ps \<Longrightarrow> (if i = 0 then l \<noteq> Some (ps ! 0) else ps ! i \<noteq> ps ! (i - 1)) \<Longrightarrow>
     snd (labels l k ps ! i) = 0"
proof (induction ps arbitrary: i l k)
  case Nil
  then show ?case by simp
next
  case (Cons p ps)
  show ?case
  proof (cases i)
    case 0
    with Cons.prems show ?thesis by (auto simp: Let_def)
  next
    case (Suc j)
    with Cons.prems have "j < length ps"
      and "if j = 0 then Some p \<noteq> Some (ps ! 0) else ps ! j \<noteq> ps ! (j - 1)"
      by (auto split: if_splits simp: nth_Cons')
    from Cons.IH [OF this] Suc show ?thesis by (simp add: Let_def)
  qed
qed

lemma labels_nth_step:
  "0 < i \<Longrightarrow> i < length ps \<Longrightarrow> ps ! i = ps ! (i - 1) \<Longrightarrow>
     snd (labels l k ps ! i) = snd (labels l k ps ! (i - 1)) + 1"
proof (induction ps arbitrary: i l k)
  case Nil
  then show ?case by simp
next
  case (Cons p ps)
  from Cons.prems obtain j where i: "i = Suc j" by (cases i) auto
  show ?case
  proof (cases j)
    case 0
    with i Cons.prems obtain q qs where ps: "ps = q # qs" by (cases ps) auto
    with 0 i Cons.prems have "q = p" by simp
    with ps 0 i show ?thesis by (simp add: Let_def)
  next
    case (Suc m)
    with i Cons.prems have "0 < j" "j < length ps" "ps ! j = ps ! (j - 1)" by auto
    from Cons.IH [OF this] i Suc show ?thesis by (simp add: Let_def)
  qed
qed

lemma grouped_map_inj:
  "inj_on f (set xs) \<Longrightarrow> grouped (map f xs) = grouped xs"
proof (induction xs)
  case Nil
  show ?case by simp
next
  case (Cons x xs)
  let ?D = "dropWhile (\<lambda>y. y = x) xs"
  have inj: "inj_on f (set xs)"
    by (rule inj_on_subset [OF Cons.prems]) (simp add: subset_insertI)
  have eq: "(f y = f x) = (y = x)" if "y \<in> set xs" for y
  proof
    assume "f y = f x"
    then show "y = x" by (rule inj_onD [OF Cons.prems]) (simp_all add: that)
  qed simp
  have dw1: "dropWhile ((\<lambda>y. y = f x) \<circ> f) xs = ?D"
    by (rule dropWhile_cong) (simp_all add: eq)
  have dw: "dropWhile (\<lambda>y. y = f x) (map f xs) = map f ?D"
    by (simp only: dropWhile_map dw1)
  have sub: "set ?D \<subseteq> set (x # xs)"
    using set_dropWhileD [of _ "\<lambda>y. y = x" xs] by (simp add: subset_iff)
  have mem: "(f x \<in> f ` set ?D) = (x \<in> set ?D)"
    by (rule inj_on_image_mem_iff [OF Cons.prems _ sub]) simp
  have "grouped (map f (x # xs)) =
        (f x \<notin> set (dropWhile (\<lambda>y. y = f x) (map f xs)) \<and> grouped (map f xs))"
    by simp
  also have "\<dots> = (x \<notin> set ?D \<and> grouped xs)"
    by (simp only: dw set_map mem Cons.IH [OF inj])
  finally show ?case by simp
qed

lemma typed_page_id_inj:
  assumes "loader_typed c" "loader_typed d" "page_id_of c = page_id_of d"
  shows "source_page c = source_page d"
proof -
  from assms(1) obtain s i where c: "source_page c = (PStr s, PInt i)"
    by (cases "source_page c") (auto split: pyval.splits)
  from assms(2) obtain t j where d: "source_page d = (PStr t, PInt j)"
    by (cases "source_page d") (auto split: pyval.splits)
  from c d assms(3) have "s @ CHR '':'' # str_int i = t @ CHR '':'' # str_int j"
    by (simp add: page_id_of_def source_page_def)
  then have "s = t \<and> str_int i = str_int j"
    by (rule append_sep_inj) (rule colon_notin_str_int)+
  with c d show ?thesis by (simp add: str_int_eq_iff)
qed

subsection \<open>Uniqueness under grouping\<close>

lemma str_int_0: "str_int 0 = ''0''"
  by code_simp

lemma ids_labels:
  "map chunk_id (calculate_chunk_ids cs) = map render (labels None 0 (map page_id_of cs))"
  by (simp add: calculate_chunk_ids_def chunk_ids_labels)

lemma length_calculate_chunk_ids: "length (calculate_chunk_ids cs) = length cs"
  by (simp add: calculate_chunk_ids_def)

lemma nth_id_label:
  assumes "i < length cs"
  shows "chunk_id (calculate_chunk_ids cs ! i) = render (labels None 0 (map page_id_of cs) ! i)"
proof -
  have "chunk_id (calculate_chunk_ids cs ! i) = map chunk_id (calculate_chunk_ids cs) ! i"
    using assms by (simp add: length_calculate_chunk_ids)
  also have "\<dots> = render (labels None 0 (map page_id_of cs) ! i)"
    unfolding ids_labels using assms by simp
  finally show ?thesis .
qed

lemma page_id_grouped_ids_distinct:
  assumes "grouped (map page_id_of cs)"
  shows "distinct (map chunk_id (calculate_chunk_ids cs))"
proof -
  have "distinct (labels None 0 (map page_id_of cs))"
    using assms by (rule distinct_labels)
  moreover have "inj_on render (set (labels None 0 (map page_id_of cs)))"
    by (rule inj_onI) (rule render_inj)
  ultimately show ?thesis
    unfolding ids_labels by (simp add: distinct_map)
qed

lemma boundary_resets:
  assumes "i < length cs" "i = 0 \<or> page_id_of (cs ! i) \<noteq> page_id_of (cs ! (i - 1))"
  shows "chunk_id (calculate_chunk_ids cs ! i) = Some (PStr (page_id_of (cs ! i) @ '':0''))"
proof -
  let ?ps = "map page_id_of cs"
  let ?L = "labels None 0 ?ps"
  from assms have i: "i < length ?ps" by simp
  have "if i = 0 then None \<noteq> Some (?ps ! 0) else ?ps ! i \<noteq> ?ps ! (i - 1)"
    using assms by auto
  with i have "snd (?L ! i) = 0" by (rule labels_nth_reset)
  moreover from i have "fst (?L ! i) = page_id_of (cs ! i)"
    using assms(1) by (simp add: labels_nth_fst)
  ultimately have "render (?L ! i) = Some (PStr (page_id_of (cs ! i) @ '':0''))"
    by (simp add: render_def str_int_0)
  with assms(1) show ?thesis by (simp add: nth_id_label)
qed

lemma typed_grouped:
  assumes typed: "list_all loader_typed cs" and g: "grouped (map source_page cs)"
  shows "grouped (map page_id_of cs)"
proof -
  have pid: "page_id_of c = page_id_of_pair (source_page c)" for c
    by (simp add: page_id_of_def page_id_of_pair_def source_page_def)
  have "inj_on page_id_of_pair (set (map source_page cs))"
  proof (rule inj_onI)
    fix a b
    assume "a \<in> set (map source_page cs)" "b \<in> set (map source_page cs)"
      and eq: "page_id_of_pair a = page_id_of_pair b"
    then obtain c d where c: "c \<in> set cs" "a = source_page c"
      and d: "d \<in> set cs" "b = source_page d" by auto
    from typed c(1) d(1) have "loader_typed c" "loader_typed d"
      by (simp_all add: list_all_iff del: loader_typed.simps)
    moreover from eq c(2) d(2) have "page_id_of c = page_id_of d" by (simp add: pid)
    ultimately show "a = b" unfolding c(2) d(2) by (rule typed_page_id_inj)
  qed
  then have "grouped (map page_id_of_pair (map source_page cs)) = grouped (map source_page cs)"
    by (rule grouped_map_inj)
  moreover have "map page_id_of_pair (map source_page cs) = map page_id_of cs"
    by (simp add: pid)
  ultimately have "grouped (map page_id_of cs) = grouped (map source_page cs)"
    by (simp only:)
  with g show ?thesis by blast
qed


lemma page_id_of_fields:
  "page_id_of c =
     (case metadata c ''source'' of None \<Rightarrow> ''None'' | Some v \<Rightarrow> py_format v) @ '':'' @
     (case metadata c ''page'' of None \<Rightarrow> ''None'' | Some v \<Rightarrow> py_format v)"
  by (simp add: page_id_of_def dict_get_def split: option.splits)

lemma nth_id_shape:
  assumes "i < length cs"
  shows "chunk_id (calculate_chunk_ids cs ! i) =
           Some (PStr (page_id_of (cs ! i) @ '':'' @
             str_int (snd (labels None 0 (map page_id_of cs) ! i))))"
  using assms by (simp add: nth_id_label render_def labels_nth_fst)

subsection \<open>The conversion limit\<close>

text \<open>
  A rendering has at most \<open>k\<close> digits exactly when the number is below \<open>10 ^ k\<close>, so
  \<open>py_str\<close> raises exactly on the integers of absolute value \<open>10 ^ 4300\<close> and more.
  Within the limit, and on a list of fewer than \<open>10 ^ 4300\<close> chunks (any Python list),
  the loop with the limit returns what the loop without it computes.
\<close>

lemma str_int_1: "str_int 1 = ''1''"
  by code_simp

lemma digits_length_le:
  "n < 10 ^ k \<Longrightarrow> 0 < k \<Longrightarrow> length (digits n) \<le> k"
proof (induction n arbitrary: k rule: digits.induct)
  case (1 n)
  show ?case
  proof (cases "n < 10")
    case True
    with 1(3) show ?thesis by (simp add: digits.simps [of n])
  next
    case False
    from 1(3) obtain j where k: "k = Suc j" by (cases k) auto
    have j: "0 < j"
    proof (rule ccontr)
      assume "\<not> 0 < j"
      with k 1(2) False show False by simp
    qed
    from 1(2) k have "n div 10 < 10 ^ j" by (simp add: less_mult_imp_div_less mult.commute)
    from 1(1) [OF False this j] False k show ?thesis
      by (simp add: digits.simps [of n])
  qed
qed

lemma digits_length_gt:
  "10 ^ k \<le> n \<Longrightarrow> k < length (digits n)"
proof (induction k arbitrary: n)
  case 0
  then show ?case using digits_not_Nil [of n] by (cases "digits n") auto
next
  case (Suc k)
  have "(1::nat) \<le> 10 ^ k" by simp
  with Suc.prems have n: "\<not> n < 10" unfolding power_Suc by linarith
  from Suc.prems have "10 ^ k \<le> n div 10"
    by (simp add: div_le_mono [of "10 * 10 ^ k" n 10, simplified])
  from Suc.IH [OF this] n show ?case by (simp add: digits.simps [of n])
qed

lemma int_max_str_digits_pos: "0 < int_max_str_digits"
  by (simp add: int_max_str_digits_def)

lemma py_str_small:
  assumes "0 \<le> i" "i < 10 ^ int_max_str_digits"
  shows "py_str i = Inr (str_int i)"
proof -
  from assms have "nat \<bar>i\<bar> < 10 ^ int_max_str_digits"
    by (simp add: nat_less_iff)
  then have "length (digits (nat \<bar>i\<bar>)) \<le> int_max_str_digits"
    using int_max_str_digits_pos by (rule digits_length_le)
  then show ?thesis by (simp add: py_str_def)
qed

lemma py_str_large:
  assumes "10 ^ int_max_str_digits \<le> \<bar>i\<bar>"
  shows "py_str i = Inl ValueError"
proof -
  from assms have "10 ^ int_max_str_digits \<le> nat \<bar>i\<bar>"
    by (simp add: le_nat_iff)
  then have "int_max_str_digits < length (digits (nat \<bar>i\<bar>))"
    by (rule digits_length_gt)
  then show ?thesis by (simp add: py_str_def)
qed

lemma format_field_renders: "renders v \<Longrightarrow> format_field v = Inr (py_format v)"
  by (cases v) (simp_all add: py_str_def)

lemma chunk_loop_exn_ok:
  assumes "\<forall>c\<in>set cs. renders (dict_get (metadata c) ''source'') \<and>
                        renders (dict_get (metadata c) ''page'')"
    and "0 \<le> k" and "k + int (length cs) < 10 ^ int_max_str_digits"
  shows "chunk_loop_exn l k cs = Inr (chunk_loop l k cs)"
  using assms
proof (induction cs arbitrary: l k)
  case Nil
  show ?case by simp
next
  case (Cons c cs)
  let ?p = "page_id_of c"
  let ?k = "if Some ?p = l then k + 1 else 0"
  from Cons.prems(1) have
    s: "format_field (dict_get (metadata c) ''source'') =
          Inr (py_format (dict_get (metadata c) ''source''))"
    and p: "format_field (dict_get (metadata c) ''page'') =
          Inr (py_format (dict_get (metadata c) ''page''))"
    by (simp_all add: format_field_renders)
  define t where "t = (10::int) ^ int_max_str_digits"
  from Cons.prems(3) have "k + (1 + int (length cs)) < t"
    unfolding t_def by (simp only: length_Cons of_nat_Suc add.commute [of _ 1])
  with Cons.prems(2) have "0 \<le> ?k \<and> ?k < t \<and> ?k + int (length cs) < t"
    by (cases "Some ?p = l") simp_all
  then have k: "0 \<le> ?k" "?k < 10 ^ int_max_str_digits"
    "?k + int (length cs) < 10 ^ int_max_str_digits"
    unfolding t_def by blast+
  from k(1,2) have str: "py_str ?k = Inr (str_int ?k)" by (rule py_str_small)
  from Cons.prems(1) have "\<forall>c\<in>set cs. renders (dict_get (metadata c) ''source'') \<and>
                        renders (dict_get (metadata c) ''page'')" by simp
  from Cons.IH [OF this k(1,3)]
  have rest: "chunk_loop_exn (Some ?p) ?k cs = Inr (chunk_loop (Some ?p) ?k cs)" .
  have pid: "py_format (dict_get (metadata c) ''source'') @ '':'' @
             py_format (dict_get (metadata c) ''page'') = ?p"
    by (simp add: page_id_of_def)
  show ?case
    unfolding chunk_loop_exn.simps chunk_loop.simps s p sum.case pid Let_def str rest
    by (rule refl)
qed

lemma exn_agrees:
  assumes "\<forall>c\<in>set chunks. renders (dict_get (metadata c) ''source'') \<and>
                           renders (dict_get (metadata c) ''page'')"
    and "length chunks < 10 ^ int_max_str_digits"
  shows "calculate_chunk_ids_exn chunks = Inr (calculate_chunk_ids chunks)"
proof -
  from assms(2) have "0 + int (length chunks) < 10 ^ int_max_str_digits"
    by (simp add: of_nat_less_iff [of _ "10 ^ int_max_str_digits", simplified])
  from chunk_loop_exn_ok [OF assms(1) _ this] show ?thesis
    by (simp add: calculate_chunk_ids_exn_def calculate_chunk_ids_def)
qed

lemma oversized_page_raises:
  "calculate_chunk_ids_exn [mk_chunk ''t0'' ''a.pdf'' (10 ^ int_max_str_digits)] =
     Inl ValueError"
proof -
  have "py_str (10 ^ int_max_str_digits) = Inl ValueError"
    by (rule py_str_large) simp
  then show ?thesis
    by (simp add: calculate_chunk_ids_exn_def mk_chunk_def dict_get_def)
qed

section \<open>Claims about the identifier assignment\<close>

text \<open>
  C2: for every list of chunks whose \<open>(source, page)\<close> groups are contiguous, every
  chunk receives an id string, no two chunks receive the same one, and the counter is 0
  at the first chunk and wherever the page id differs from the previous chunk's. The
  groups are those of the \<open>(source, page)\<close> pairs of loader chunks or, for any chunks,
  those of the page ids \<open>source:page\<close> that the code compares.
\<close>

theorem grouped_ids_unique:
  assumes "list_all loader_typed chunks \<and> grouped (map source_page chunks) \<or>
           grouped (map page_id_of chunks)"
  shows "distinct (map chunk_id (calculate_chunk_ids chunks)) \<and>
         (\<forall>i<length chunks. \<exists>s. chunk_id (calculate_chunk_ids chunks ! i) = Some (PStr s)) \<and>
         (\<forall>i<length chunks.
            i = 0 \<or> page_id_of (chunks ! i) \<noteq> page_id_of (chunks ! (i - 1)) \<longrightarrow>
            chunk_id (calculate_chunk_ids chunks ! i) =
              Some (PStr (page_id_of (chunks ! i) @ '':0'')))"
proof -
  from assms have "grouped (map page_id_of chunks)"
    using typed_grouped by blast
  then have "distinct (map chunk_id (calculate_chunk_ids chunks))"
    by (rule page_id_grouped_ids_distinct)
  moreover have "\<forall>i<length chunks. \<exists>s. chunk_id (calculate_chunk_ids chunks ! i) = Some (PStr s)"
    using nth_id_shape by blast
  ultimately show ?thesis using boundary_resets by blast
qed

theorem grouped_ids_unique_witness:
  "list_all loader_typed sample_chunks \<and> grouped (map source_page sample_chunks) \<and>
   distinct (map chunk_id (calculate_chunk_ids sample_chunks)) \<and>
   chunk_id (calculate_chunk_ids sample_chunks ! 2) = Some (PStr ''a.pdf:1:0'') \<and>
   map chunk_id (calculate_chunk_ids sample_chunks) =
     [Some (PStr ''a.pdf:0:0''), Some (PStr ''a.pdf:0:1''), Some (PStr ''a.pdf:1:0'')]"
proof -
  have h1: "list_all loader_typed sample_chunks" by code_simp
  have h2: "grouped (map source_page sample_chunks)" by code_simp
  have len: "2 < length sample_chunks" by code_simp
  have b: "page_id_of (sample_chunks ! 2) \<noteq> page_id_of (sample_chunks ! (2 - 1))" by code_simp
  have p: "page_id_of (sample_chunks ! 2) @ '':0'' = ''a.pdf:1:0''" by code_simp
  have h: "list_all loader_typed sample_chunks \<and> grouped (map source_page sample_chunks) \<or>
           grouped (map page_id_of sample_chunks)"
    using h1 h2 by blast
  from grouped_ids_unique [OF h] len b p
  have "distinct (map chunk_id (calculate_chunk_ids sample_chunks))"
    and "chunk_id (calculate_chunk_ids sample_chunks ! 2) = Some (PStr ''a.pdf:1:0'')"
    by auto
  moreover have "map chunk_id (calculate_chunk_ids sample_chunks) =
     [Some (PStr ''a.pdf:0:0''), Some (PStr ''a.pdf:0:1''), Some (PStr ''a.pdf:1:0'')]"
    by code_simp
  ultimately show ?thesis using h1 h2 by blast
qed

text \<open>
  The two kinds of group differ only off the loader's chunks: an absent source renders as
  \<open>None\<close>, as the string \<open>None\<close> does. The list below is grouped by its
  \<open>(source, page)\<close> pairs and interleaved by its page ids, and the id \<open>None:1:0\<close>
  is given twice.
\<close>

lemma absent_source_renders_as_None:
  "grouped (map source_page none_source_chunks) \<and>
   \<not> grouped (map page_id_of none_source_chunks) \<and>
   map chunk_id (calculate_chunk_ids none_source_chunks) =
     [Some (PStr ''None:1:0''), Some (PStr ''x:1:0''), Some (PStr ''None:1:0'')]"
  by code_simp

text \<open>
  C5: the three loader chunks of pages 0, 1 and 0 of \<open>a.pdf\<close> are a list whose
  \<open>(source, page)\<close> groups are interleaved, and \<open>calculate_chunk_ids\<close> assigns the id
  string \<open>a.pdf:0:0\<close> both to the first and to the third of them.
\<close>

theorem interleaved_pages_collide:
  "list_all loader_typed interleaved_chunks \<and>
   \<not> grouped (map source_page interleaved_chunks) \<and>
   map page_content interleaved_chunks = [''t0'', ''t1'', ''t2''] \<and>
   map chunk_id (calculate_chunk_ids interleaved_chunks) =
     [Some (PStr ''a.pdf:0:0''), Some (PStr ''a.pdf:1:0''), Some (PStr ''a.pdf:0:0'')]"
  by code_simp

lemma labels_replicate:
  "labels l k (replicate n q) =
     map (\<lambda>j. (q, (if Some q = l then k + 1 else 0) + int j)) [0..<n]"
proof (induction n arbitrary: l k)
  case 0
  show ?case by simp
next
  case (Suc n)
  let ?k0 = "if Some q = l then k + 1 else 0"
  have "labels l k (replicate (Suc n) q) = (q, ?k0) # labels (Some q) ?k0 (replicate n q)"
    by (simp add: Let_def)
  also have "\<dots> = (q, ?k0) # map (\<lambda>j. (q, ?k0 + 1 + int j)) [0..<n]"
    by (simp only: Suc.IH) simp
  also have "\<dots> = map (\<lambda>j. (q, ?k0 + int j)) (0 # map Suc [0..<n])"
    by (simp add: comp_def add.assoc)
  also have "0 # map Suc [0..<n] = [0..<Suc n]"
    by (simp only: map_Suc_upt upt_conv_Cons [of 0 "Suc n"])
  finally show ?case .
qed

lemma same_page_id_ids:
  assumes "\<forall>c\<in>set chunks. page_id_of c = q"
  shows "map chunk_id (calculate_chunk_ids chunks) =
           map (\<lambda>k. Some (PStr (q @ '':'' @ str_int (int k)))) [0..<length chunks]"
proof -
  from assms have "map page_id_of chunks = replicate (length chunks) q"
    by (simp add: map_replicate_const [symmetric] cong: map_cong)
  then have "map chunk_id (calculate_chunk_ids chunks) =
             map render (map (\<lambda>j. (q, int j)) [0..<length chunks])"
    by (simp only: ids_labels labels_replicate) simp
  then show ?thesis by (simp add: render_def comp_def)
qed

text \<open>
  C6: for every list of chunks that all share one \<open>(source, page)\<close> pair, the ids are
  \<open>source:page:0\<close>, \<open>source:page:1\<close>, \<dots> in input order, the index starting at 0
  and growing by one.
\<close>

theorem single_group_ids:
  assumes "\<forall>c\<in>set chunks. source_page c = (s, p)"
  shows "map chunk_id (calculate_chunk_ids chunks) =
           map (\<lambda>k. Some (PStr (py_format s @ '':'' @ py_format p @ '':'' @ str_int (int k))))
             [0..<length chunks]"
proof -
  have "\<forall>c\<in>set chunks. page_id_of c = py_format s @ '':'' @ py_format p"
    using assms by (simp add: page_id_of_def source_page_def)
  from same_page_id_ids [OF this] show ?thesis by simp
qed

theorem single_group_ids_witness:
  "list_all (\<lambda>c. source_page c = (PStr ''a.pdf'', PInt 3)) same_page_chunks \<and>
   map chunk_id (calculate_chunk_ids same_page_chunks) =
     [Some (PStr ''a.pdf:3:0''), Some (PStr ''a.pdf:3:1''), Some (PStr ''a.pdf:3:2'')]"
proof -
  have h: "list_all (\<lambda>c. source_page c = (PStr ''a.pdf'', PInt 3)) same_page_chunks"
    by code_simp
  then have "\<forall>c\<in>set same_page_chunks. source_page c = (PStr ''a.pdf'', PInt 3)"
    by (simp add: list_all_iff)
  from single_group_ids [OF this]
  have "map chunk_id (calculate_chunk_ids same_page_chunks) =
          map (\<lambda>k. Some (PStr (py_format (PStr ''a.pdf'') @ '':'' @ py_format (PInt 3) @ '':'' @
                 str_int (int k)))) [0..<length same_page_chunks]" .
  also have "\<dots> = [Some (PStr ''a.pdf:3:0''), Some (PStr ''a.pdf:3:1''), Some (PStr ''a.pdf:3:2'')]"
    by code_simp
  finally show ?thesis using h by blast
qed

lemma chunk_loop_nth:
  "i < length cs \<Longrightarrow>
     chunk_loop l k cs ! i =
       (cs ! i)\<lparr>metadata := (metadata (cs ! i))(''id'' \<mapsto>
          PStr (page_id_of (cs ! i) @ '':'' @
                str_int (snd (labels l k (map page_id_of cs) ! i))))\<rparr>"
proof (induction cs arbitrary: i l k)
  case Nil
  then show ?case by simp
next
  case (Cons c cs)
  show ?case
  proof (cases i)
    case 0
    then show ?thesis by (simp add: Let_def fun_upd_def)
  next
    case (Suc j)
    with Cons.prems have "j < length cs" by simp
    from Cons.IH [OF this] Suc show ?thesis by (simp add: Let_def)
  qed
qed

text \<open>
  C7: for every list of chunks, \<open>calculate_chunk_ids\<close> returns a list of the same
  length whose \<open>i\<close>-th element is the \<open>i\<close>-th input chunk with the metadata key
  \<open>id\<close> set to a string and nothing else changed.
\<close>

theorem calculate_chunk_ids_frame:
  "length (calculate_chunk_ids chunks) = length chunks \<and>
   (\<forall>i<length chunks. \<exists>s.
      calculate_chunk_ids chunks ! i =
        (chunks ! i)\<lparr>metadata := (metadata (chunks ! i))(''id'' \<mapsto> PStr s)\<rparr>)"
proof (intro conjI allI impI)
  show "length (calculate_chunk_ids chunks) = length chunks"
    by (rule length_calculate_chunk_ids)
next
  fix i assume "i < length chunks"
  then show "\<exists>s. calculate_chunk_ids chunks ! i =
        (chunks ! i)\<lparr>metadata := (metadata (chunks ! i))(''id'' \<mapsto> PStr s)\<rparr>"
    unfolding calculate_chunk_ids_def by (intro exI) (rule chunk_loop_nth)
qed

theorem calculate_chunk_ids_frame_witness:
  "length (calculate_chunk_ids sample_chunks) = 3 \<and>
   page_content (calculate_chunk_ids sample_chunks ! 1) = ''t1'' \<and>
   metadata (calculate_chunk_ids sample_chunks ! 1) ''source'' = Some (PStr ''a.pdf'') \<and>
   metadata (calculate_chunk_ids sample_chunks ! 1) ''page'' = Some (PInt 0) \<and>
   (\<exists>s. metadata (calculate_chunk_ids sample_chunks ! 1) ''id'' = Some (PStr s))"
proof -
  have len: "length sample_chunks = 3" by code_simp
  have c: "sample_chunks ! 1 = mk_chunk ''t1'' ''a.pdf'' 0" by (simp add: sample_chunks_def)
  from calculate_chunk_ids_frame [of sample_chunks] len
  have l: "length (calculate_chunk_ids sample_chunks) = 3"
    and "\<exists>s. calculate_chunk_ids sample_chunks ! 1 =
           (sample_chunks ! 1)\<lparr>metadata := (metadata (sample_chunks ! 1))(''id'' \<mapsto> PStr s)\<rparr>"
    by auto
  then obtain s where "calculate_chunk_ids sample_chunks ! 1 =
      (mk_chunk ''t1'' ''a.pdf'' 0)\<lparr>metadata := (metadata (mk_chunk ''t1'' ''a.pdf'' 0))(''id'' \<mapsto> PStr s)\<rparr>"
    unfolding c by blast
  then have "page_content (calculate_chunk_ids sample_chunks ! 1) = ''t1''"
    "metadata (calculate_chunk_ids sample_chunks ! 1) ''source'' = Some (PStr ''a.pdf'')"
    "metadata (calculate_chunk_ids sample_chunks ! 1) ''page'' = Some (PInt 0)"
    "metadata (calculate_chunk_ids sample_chunks ! 1) ''id'' = Some (PStr s)"
    by (simp_all add: mk_chunk_def)
  with l show ?thesis by blast
qed

lemma missing_metadata_shape:
  "length (calculate_chunk_ids chunks) = length chunks \<and>
   (\<forall>i<length chunks. \<exists>n.
      chunk_id (calculate_chunk_ids chunks ! i) =
        Some (PStr ((case metadata (chunks ! i) ''source'' of
                       None \<Rightarrow> ''None'' | Some v \<Rightarrow> py_format v) @ '':'' @
                    (case metadata (chunks ! i) ''page'' of
                       None \<Rightarrow> ''None'' | Some v \<Rightarrow> py_format v) @ '':'' @ str_int n))) \<and>
   (\<forall>i. 0 < i \<and> i < length chunks \<and>
        metadata (chunks ! (i - 1)) ''source'' = None \<and>
        metadata (chunks ! (i - 1)) ''page'' = None \<and>
        metadata (chunks ! i) ''source'' = None \<and> metadata (chunks ! i) ''page'' = None \<longrightarrow>
      (\<exists>n. chunk_id (calculate_chunk_ids chunks ! (i - 1)) =
              Some (PStr (''None:None:'' @ str_int n)) \<and>
            chunk_id (calculate_chunk_ids chunks ! i) =
              Some (PStr (''None:None:'' @ str_int (n + 1))))) \<and>
   ((\<forall>c\<in>set chunks. metadata c ''source'' = None \<and> metadata c ''page'' = None) \<longrightarrow>
      map chunk_id (calculate_chunk_ids chunks) =
        map (\<lambda>k. Some (PStr (''None:None:'' @ str_int (int k)))) [0..<length chunks])"
proof (intro conjI allI impI)
  show "length (calculate_chunk_ids chunks) = length chunks"
    by (rule length_calculate_chunk_ids)
next
  fix i assume "i < length chunks"
  then have "chunk_id (calculate_chunk_ids chunks ! i) =
      Some (PStr (page_id_of (chunks ! i) @ '':'' @
        str_int (snd (labels None 0 (map page_id_of chunks) ! i))))"
    by (rule nth_id_shape)
  then show "\<exists>n. chunk_id (calculate_chunk_ids chunks ! i) =
        Some (PStr ((case metadata (chunks ! i) ''source'' of
                       None \<Rightarrow> ''None'' | Some v \<Rightarrow> py_format v) @ '':'' @
                    (case metadata (chunks ! i) ''page'' of
                       None \<Rightarrow> ''None'' | Some v \<Rightarrow> py_format v) @ '':'' @ str_int n))"
    unfolding page_id_of_fields by (intro exI) simp
next
  fix i
  assume a: "0 < i \<and> i < length chunks \<and>
        metadata (chunks ! (i - 1)) ''source'' = None \<and>
        metadata (chunks ! (i - 1)) ''page'' = None \<and>
        metadata (chunks ! i) ''source'' = None \<and> metadata (chunks ! i) ''page'' = None"
  let ?L = "labels None 0 (map page_id_of chunks)"
  from a have i: "0 < i" "i < length chunks" "i - 1 < length chunks" by auto
  from a have p: "page_id_of (chunks ! i) = ''None:None''"
    "page_id_of (chunks ! (i - 1)) = ''None:None''"
    by (simp_all add: page_id_of_fields)
  from i p have "snd (?L ! i) = snd (?L ! (i - 1)) + 1"
    by (intro labels_nth_step) simp_all
  with nth_id_shape [OF i(2)] nth_id_shape [OF i(3)] p
  have "chunk_id (calculate_chunk_ids chunks ! (i - 1)) =
          Some (PStr (''None:None:'' @ str_int (snd (?L ! (i - 1))))) \<and>
        chunk_id (calculate_chunk_ids chunks ! i) =
          Some (PStr (''None:None:'' @ str_int (snd (?L ! (i - 1)) + 1)))"
    by simp
  then show "\<exists>n. chunk_id (calculate_chunk_ids chunks ! (i - 1)) =
              Some (PStr (''None:None:'' @ str_int n)) \<and>
            chunk_id (calculate_chunk_ids chunks ! i) =
              Some (PStr (''None:None:'' @ str_int (n + 1)))"
    by blast
next
  assume "\<forall>c\<in>set chunks. metadata c ''source'' = None \<and> metadata c ''page'' = None"
  then have "\<forall>c\<in>set chunks. page_id_of c = ''None:None''"
    by (simp add: page_id_of_fields)
  from same_page_id_ids [OF this]
  show "map chunk_id (calculate_chunk_ids chunks) =
        map (\<lambda>k. Some (PStr (''None:None:'' @ str_int (int k)))) [0..<length chunks]"
    by simp
qed


lemma missing_first_in_run:
  assumes "i < length chunks"
    and "metadata (chunks ! i) ''source'' = None" "metadata (chunks ! i) ''page'' = None"
    and "i = 0 \<or> page_id_of (chunks ! (i - 1)) \<noteq> ''None:None''"
  shows "chunk_id (calculate_chunk_ids chunks ! i) = Some (PStr ''None:None:0'')"
proof -
  from assms(2,3) have p: "page_id_of (chunks ! i) = ''None:None''"
    by (simp add: page_id_of_fields)
  with assms(4) have "i = 0 \<or> page_id_of (chunks ! i) \<noteq> page_id_of (chunks ! (i - 1))"
    by auto
  from boundary_resets [OF assms(1) this] p show ?thesis by simp
qed

lemma missing_second_in_run:
  assumes "0 < i" "i < length chunks"
    and "metadata (chunks ! (i - 1)) ''source'' = None"
        "metadata (chunks ! (i - 1)) ''page'' = None"
    and "metadata (chunks ! i) ''source'' = None" "metadata (chunks ! i) ''page'' = None"
    and "i = 1 \<or> page_id_of (chunks ! (i - 2)) \<noteq> ''None:None''"
  shows "chunk_id (calculate_chunk_ids chunks ! i) = Some (PStr ''None:None:1'')"
proof -
  let ?ps = "map page_id_of chunks"
  let ?L = "labels None 0 ?ps"
  from assms(3-6) have p: "page_id_of (chunks ! i) = ''None:None''"
    "page_id_of (chunks ! (i - 1)) = ''None:None''"
    by (simp_all add: page_id_of_fields)
  from assms(1,2) have j: "i - 1 < length ?ps" "i < length ?ps" by simp_all
  have "if i - 1 = 0 then None \<noteq> Some (?ps ! 0)
        else ?ps ! (i - 1) \<noteq> ?ps ! (i - 1 - 1)"
  proof (cases "i = 1")
    case True
    then show ?thesis by simp
  next
    case False
    have "i - 1 - 1 = i - 2" by simp
    with False assms(7) p(2)
    have "page_id_of (chunks ! (i - 1)) \<noteq> page_id_of (chunks ! (i - 1 - 1))"
      by simp
    moreover from False assms(1) have "i - 1 \<noteq> 0" by simp
    ultimately show ?thesis using j(1) by simp
  qed
  with j(1) have z: "snd (?L ! (i - 1)) = 0" by (rule labels_nth_reset)
  from assms(1) j(2) p assms(2) have "snd (?L ! i) = snd (?L ! (i - 1)) + 1"
    by (intro labels_nth_step) simp_all
  with z have "snd (?L ! i) = 1" by simp
  with nth_id_shape [OF assms(2)] p(1) show ?thesis by (simp add: str_int_1)
qed

text \<open>
  C10: \<open>calculate_chunk_ids\<close> does not raise on absent metadata. For every list of
  chunks whose source and page are each absent, a string, or an integer within the
  conversion limit, the function returns normally, with one chunk per input chunk; each
  id has the form \<open>source:page:n\<close> with \<open>None\<close> standing for an absent field; a chunk
  lacking both fields gets \<open>None:None:0\<close> when it is first or follows a chunk of another
  page id, and the chunk lacking both fields right after it gets \<open>None:None:1\<close>; any
  two consecutive chunks lacking both fields get \<open>None:None:n\<close> and \<open>None:None:n+1\<close>;
  and a list of chunks that all lack both fields gets \<open>None:None:0\<close>,
  \<open>None:None:1\<close>, \<dots> The only exception the function has is \<open>oversized_page_raises\<close>.
\<close>

theorem missing_metadata_no_error:
  assumes "\<forall>c\<in>set chunks. renders (dict_get (metadata c) ''source'') \<and>
                           renders (dict_get (metadata c) ''page'')"
    and "length chunks < 10 ^ int_max_str_digits"
  shows "calculate_chunk_ids_exn chunks = Inr (calculate_chunk_ids chunks) \<and>
   length (calculate_chunk_ids chunks) = length chunks \<and>
   (\<forall>i<length chunks. \<exists>n.
      chunk_id (calculate_chunk_ids chunks ! i) =
        Some (PStr ((case metadata (chunks ! i) ''source'' of
                       None \<Rightarrow> ''None'' | Some v \<Rightarrow> py_format v) @ '':'' @
                    (case metadata (chunks ! i) ''page'' of
                       None \<Rightarrow> ''None'' | Some v \<Rightarrow> py_format v) @ '':'' @ str_int n))) \<and>
   (\<forall>i<length chunks.
      metadata (chunks ! i) ''source'' = None \<and> metadata (chunks ! i) ''page'' = None \<and>
      (i = 0 \<or> page_id_of (chunks ! (i - 1)) \<noteq> ''None:None'') \<longrightarrow>
      chunk_id (calculate_chunk_ids chunks ! i) = Some (PStr ''None:None:0'')) \<and>
   (\<forall>i<length chunks.
      0 < i \<and>
      metadata (chunks ! (i - 1)) ''source'' = None \<and>
      metadata (chunks ! (i - 1)) ''page'' = None \<and>
      metadata (chunks ! i) ''source'' = None \<and> metadata (chunks ! i) ''page'' = None \<and>
      (i = 1 \<or> page_id_of (chunks ! (i - 2)) \<noteq> ''None:None'') \<longrightarrow>
      chunk_id (calculate_chunk_ids chunks ! i) = Some (PStr ''None:None:1'')) \<and>
   (\<forall>i. 0 < i \<and> i < length chunks \<and>
        metadata (chunks ! (i - 1)) ''source'' = None \<and>
        metadata (chunks ! (i - 1)) ''page'' = None \<and>
        metadata (chunks ! i) ''source'' = None \<and> metadata (chunks ! i) ''page'' = None \<longrightarrow>
      (\<exists>n. chunk_id (calculate_chunk_ids chunks ! (i - 1)) =
              Some (PStr (''None:None:'' @ str_int n)) \<and>
            chunk_id (calculate_chunk_ids chunks ! i) =
              Some (PStr (''None:None:'' @ str_int (n + 1))))) \<and>
   ((\<forall>c\<in>set chunks. metadata c ''source'' = None \<and> metadata c ''page'' = None) \<longrightarrow>
      map chunk_id (calculate_chunk_ids chunks) =
        map (\<lambda>k. Some (PStr (''None:None:'' @ str_int (int k)))) [0..<length chunks])"
proof -
  have 1: "calculate_chunk_ids_exn chunks = Inr (calculate_chunk_ids chunks)"
    using assms by (rule exn_agrees)
  have 2: "\<forall>i<length chunks.
      metadata (chunks ! i) ''source'' = None \<and> metadata (chunks ! i) ''page'' = None \<and>
      (i = 0 \<or> page_id_of (chunks ! (i - 1)) \<noteq> ''None:None'') \<longrightarrow>
      chunk_id (calculate_chunk_ids chunks ! i) = Some (PStr ''None:None:0'')"
  proof (intro allI impI)
    fix i
    assume l: "i < length chunks"
      and a: "metadata (chunks ! i) ''source'' = None \<and>
        metadata (chunks ! i) ''page'' = None \<and>
        (i = 0 \<or> page_id_of (chunks ! (i - 1)) \<noteq> ''None:None'')"
    from l a [THEN conjunct1] a [THEN conjunct2, THEN conjunct1]
      a [THEN conjunct2, THEN conjunct2]
    show "chunk_id (calculate_chunk_ids chunks ! i) = Some (PStr ''None:None:0'')"
      by (rule missing_first_in_run)
  qed
  have 3: "\<forall>i<length chunks.
      0 < i \<and>
      metadata (chunks ! (i - 1)) ''source'' = None \<and>
      metadata (chunks ! (i - 1)) ''page'' = None \<and>
      metadata (chunks ! i) ''source'' = None \<and> metadata (chunks ! i) ''page'' = None \<and>
      (i = 1 \<or> page_id_of (chunks ! (i - 2)) \<noteq> ''None:None'') \<longrightarrow>
      chunk_id (calculate_chunk_ids chunks ! i) = Some (PStr ''None:None:1'')"
  proof (intro allI impI)
    fix i
    assume l: "i < length chunks"
      and a: "0 < i \<and>
        metadata (chunks ! (i - 1)) ''source'' = None \<and>
        metadata (chunks ! (i - 1)) ''page'' = None \<and>
        metadata (chunks ! i) ''source'' = None \<and> metadata (chunks ! i) ''page'' = None \<and>
        (i = 1 \<or> page_id_of (chunks ! (i - 2)) \<noteq> ''None:None'')"
    note a1 = a [THEN conjunct1]
      and a2 = a [THEN conjunct2, THEN conjunct1]
      and a3 = a [THEN conjunct2, THEN conjunct2, THEN conjunct1]
      and a4 = a [THEN conjunct2, THEN conjunct2, THEN conjunct2, THEN conjunct1]
      and a5 = a [THEN conjunct2, THEN conjunct2, THEN conjunct2, THEN conjunct2, THEN conjunct1]
      and a6 = a [THEN conjunct2, THEN conjunct2, THEN conjunct2, THEN conjunct2, THEN conjunct2]
    from a1 l a2 a3 a4 a5 a6
    show "chunk_id (calculate_chunk_ids chunks ! i) = Some (PStr ''None:None:1'')"
      by (rule missing_second_in_run)
  qed
  note s = missing_metadata_shape [of chunks]
  note s1 = s [THEN conjunct1]
    and s2 = s [THEN conjunct2, THEN conjunct1]
    and s3 = s [THEN conjunct2, THEN conjunct2, THEN conjunct1]
    and s4 = s [THEN conjunct2, THEN conjunct2, THEN conjunct2]
  show ?thesis
    by (intro conjI) (rule 1 s1 s2 2 3 s3 s4)+
qed

theorem missing_metadata_no_error_witness:
  "calculate_chunk_ids_exn bare_chunks = Inr (calculate_chunk_ids bare_chunks) \<and>
   length (calculate_chunk_ids bare_chunks) = 4 \<and>
   chunk_id (calculate_chunk_ids bare_chunks ! 1) = Some (PStr ''None:None:0'') \<and>
   chunk_id (calculate_chunk_ids bare_chunks ! 2) = Some (PStr ''None:None:1'') \<and>
   map chunk_id (calculate_chunk_ids bare_chunks) =
     [Some (PStr ''a.pdf:0:0''), Some (PStr ''None:None:0''),
      Some (PStr ''None:None:1''), Some (PStr ''None:4:0'')]"
proof -
  have len: "length bare_chunks = 4" by code_simp
  have "(10::nat) ^ 1 \<le> 10 ^ int_max_str_digits"
    by (rule power_increasing) (simp_all add: int_max_str_digits_def)
  with len have h2: "length bare_chunks < 10 ^ int_max_str_digits" by simp
  have "list_all (\<lambda>c. renders (dict_get (metadata c) ''source'') \<and>
                      renders (dict_get (metadata c) ''page'')) bare_chunks"
    by code_simp
  then have h1: "\<forall>c\<in>set bare_chunks. renders (dict_get (metadata c) ''source'') \<and>
                           renders (dict_get (metadata c) ''page'')"
    by (simp add: list_all_iff)
  have p1: "(1::nat) < length bare_chunks \<and>
      metadata (bare_chunks ! 1) ''source'' = None \<and> metadata (bare_chunks ! 1) ''page'' = None \<and>
      ((1::nat) = 0 \<or> page_id_of (bare_chunks ! (1 - 1)) \<noteq> ''None:None'')"
    by code_simp
  have p2: "(2::nat) < length bare_chunks \<and> 0 < (2::nat) \<and>
      metadata (bare_chunks ! (2 - 1)) ''source'' = None \<and>
      metadata (bare_chunks ! (2 - 1)) ''page'' = None \<and>
      metadata (bare_chunks ! 2) ''source'' = None \<and> metadata (bare_chunks ! 2) ''page'' = None \<and>
      ((2::nat) = 1 \<or> page_id_of (bare_chunks ! (2 - 2)) \<noteq> ''None:None'')"
    by code_simp
  note t = missing_metadata_no_error [OF h1 h2]
  note a = t [THEN conjunct1]
    and b = t [THEN conjunct2, THEN conjunct1]
    and t0 = t [THEN conjunct2, THEN conjunct2, THEN conjunct2, THEN conjunct1, rule_format, of 1]
    and t1 = t [THEN conjunct2, THEN conjunct2, THEN conjunct2, THEN conjunct2, THEN conjunct1,
                rule_format, of 2]
  from p1 have c: "chunk_id (calculate_chunk_ids bare_chunks ! 1) = Some (PStr ''None:None:0'')"
    by (intro t0) blast+
  from p2 have d: "chunk_id (calculate_chunk_ids bare_chunks ! 2) = Some (PStr ''None:None:1'')"
    by (intro t1) blast+
  have e: "map chunk_id (calculate_chunk_ids bare_chunks) =
     [Some (PStr ''a.pdf:0:0''), Some (PStr ''None:None:0''),
      Some (PStr ''None:None:1''), Some (PStr ''None:4:0'')]"
    by code_simp
  from a b c d e len show ?thesis by simp
qed

section \<open>Claims about the driver\<close>

lemma calculated_id:
  assumes "c \<in> set (calculate_chunk_ids cs)"
  shows "\<exists>s. metadata c ''id'' = Some (PStr s)"
proof -
  from assms obtain i where i: "i < length cs" and c: "c = chunk_loop None 0 cs ! i"
    by (auto simp: calculate_chunk_ids_def in_set_conv_nth)
  show ?thesis unfolding c chunk_loop_nth [OF i] by simp
qed

lemma select_new_all_known:
  assumes "\<forall>c\<in>set cs. \<exists>v. metadata c ''id'' = Some v \<and> v \<in> existing"
  shows "select_new existing cs = Inr []"
  using assms by (induction cs) (auto simp: dict_index_def)

lemma select_new_with_ids:
  assumes "\<forall>c\<in>set cs. \<exists>v. metadata c ''id'' = Some v"
  shows "\<exists>r. select_new existing cs = Inr r"
  using assms by (induction cs) (auto simp: dict_index_def)

text \<open>The lookup \<open>c.metadata["id"]\<close> never raises on the chunks of \<open>calculate_chunk_ids\<close>.\<close>

lemma select_new_calculated:
  "\<exists>r. select_new existing (calculate_chunk_ids cs) = Inr r"
proof (rule select_new_with_ids)
  show "\<forall>c\<in>set (calculate_chunk_ids cs). \<exists>v. metadata c ''id'' = Some v"
    using calculated_id by blast
qed

text \<open>
  C3: when the store that \<open>add_to_db\<close> connects to already holds the id of every chunk
  that \<open>calculate_chunk_ids\<close> computes for the input, \<open>add_to_db\<close> returns normally,
  its filter keeps no chunk, it reports that all documents are in the store, and it
  performs no insertion: the run adds exactly the events connect, fetch and that report,
  and the store directory holds the store as it was opened.
\<close>

theorem rerun_inserts_nothing:
  assumes "connect env (chroma_dir w) = Inr db"
    and "\<forall>c\<in>set (calculate_chunk_ids chunks).
           chunk_id c \<in> (\<lambda>s. Some (PStr s)) ` set (get_ids env db)"
  shows "add_to_db env chunks w =
           Inr (w\<lparr>chroma_dir := Some db,
                  trace := trace w @ [Connect, Fetch (get_ids env db), Print AllInDb]\<rparr>)"
proof -
  have "\<forall>c\<in>set (calculate_chunk_ids chunks).
          \<exists>v. metadata c ''id'' = Some v \<and> v \<in> PStr ` set (get_ids env db)"
    using assms(2) by (auto simp: chunk_id_def)
  then have "select_new (PStr ` set (get_ids env db)) (calculate_chunk_ids chunks) = Inr []"
    by (rule select_new_all_known)
  with assms(1) show ?thesis
    by (simp add: add_to_db_def emit_def Let_def)
qed

theorem rerun_inserts_nothing_witness:
  "add_to_db sample_env sample_chunks stored_world =
     Inr (stored_world\<lparr>trace :=
       [Connect, Fetch [''a.pdf:0:0'', ''a.pdf:0:1'', ''a.pdf:1:0''], Print AllInDb]\<rparr>)"
proof -
  let ?db = "zip [''a.pdf:0:0'', ''a.pdf:0:1'', ''a.pdf:1:0''] (calculate_chunk_ids sample_chunks)"
  have len: "length (calculate_chunk_ids sample_chunks) = 3"
    by (simp add: length_calculate_chunk_ids sample_chunks_def)
  have h1: "connect sample_env (chroma_dir stored_world) = Inr ?db"
    by (simp add: sample_env_def stored_world_def)
  have ids: "get_ids sample_env ?db = [''a.pdf:0:0'', ''a.pdf:0:1'', ''a.pdf:1:0'']"
    using len by (simp add: sample_env_def)
  have "map chunk_id (calculate_chunk_ids sample_chunks) =
        map (\<lambda>s. Some (PStr s)) [''a.pdf:0:0'', ''a.pdf:0:1'', ''a.pdf:1:0'']"
    by code_simp
  then have "set (map chunk_id (calculate_chunk_ids sample_chunks)) =
        (\<lambda>s. Some (PStr s)) ` set [''a.pdf:0:0'', ''a.pdf:0:1'', ''a.pdf:1:0'']"
    by (simp only: set_map)
  then have h2: "\<forall>c\<in>set (calculate_chunk_ids sample_chunks).
           chunk_id c \<in> (\<lambda>s. Some (PStr s)) ` set (get_ids sample_env ?db)"
    unfolding ids by (metis imageI set_map)
  from rerun_inserts_nothing [OF h1 h2] show ?thesis
    unfolding ids by (simp add: stored_world_def)
qed

text \<open>
  C4: when the ingestion directory is not a directory or holds no PDF file, \<open>main\<close>
  returns normally; the run prints the condition as its last line, adds no event that
  touches the vector store (no client is constructed), and without the reset flag leaves
  the store directory as it was. The removal of the store directory under the reset flag
  is taken to succeed.
\<close>

theorem no_pdfs_no_store_access:
  assumes "\<not> is_dir env (dir a) \<or> glob_pdf env (dir a) = []"
  shows "\<exists>w'. main env a w = Inr w' \<and>
           trace w' = trace w @
             (if reset a
              then Print Clearing # (if chroma_dir w = None then [] else [Rmtree])
              else []) @
             [Print (if is_dir env (dir a) then NoPdfFound (dir a) else DirNotFound (dir a))] \<and>
           filter store_event (trace w') = filter store_event (trace w) \<and>
           (\<not> reset a \<longrightarrow> chroma_dir w' = chroma_dir w)"
  using assms by (auto simp: main_def emit_def clear_database_def Let_def)

theorem no_pdfs_no_store_access_witness:
  "(\<exists>w'. main sample_env \<lparr>reset = False, dir = ''nodir''\<rparr> old_world = Inr w' \<and>
          trace w' = [Print (DirNotFound ''nodir'')] \<and>
          chroma_dir w' = chroma_dir old_world) \<and>
   (\<exists>w'. main sample_env \<lparr>reset = False, dir = ''empty''\<rparr> old_world = Inr w' \<and>
          trace w' = [Print (NoPdfFound ''empty'')] \<and>
          chroma_dir w' = chroma_dir old_world)"
proof -
  have h1: "\<not> is_dir sample_env (dir \<lparr>reset = False, dir = ''nodir''\<rparr>) \<or>
            glob_pdf sample_env (dir \<lparr>reset = False, dir = ''nodir''\<rparr>) = []"
    by (simp add: sample_env_def)
  have h2: "\<not> is_dir sample_env (dir \<lparr>reset = False, dir = ''empty''\<rparr>) \<or>
            glob_pdf sample_env (dir \<lparr>reset = False, dir = ''empty''\<rparr>) = []"
    by (simp add: sample_env_def)
  have d: "is_dir sample_env ''empty''" "\<not> is_dir sample_env ''nodir''"
    by (simp_all add: sample_env_def)
  have t: "trace old_world = []" by (simp add: old_world_def)
  from no_pdfs_no_store_access [OF h1, of old_world] d t
  have "\<exists>w'. main sample_env \<lparr>reset = False, dir = ''nodir''\<rparr> old_world = Inr w' \<and>
          trace w' = [Print (DirNotFound ''nodir'')] \<and>
          chroma_dir w' = chroma_dir old_world"
    by auto
  moreover from no_pdfs_no_store_access [OF h2, of old_world] d t
  have "\<exists>w'. main sample_env \<lparr>reset = False, dir = ''empty''\<rparr> old_world = Inr w' \<and>
          trace w' = [Print (NoPdfFound ''empty'')] \<and>
          chroma_dir w' = chroma_dir old_world"
    by auto
  ultimately show ?thesis by blast
qed

text \<open>
  C9: with the reset flag and an existing store directory, a run whose ingestion
  directory is missing or holds no PDF file returns normally with the store directory
  gone: the removal happens before the directory check prints its message.
\<close>

theorem reset_precedes_directory_check:
  assumes "reset a" and "chroma_dir w = Some db"
    and "\<not> is_dir env (dir a) \<or> glob_pdf env (dir a) = []"
  shows "\<exists>w'. main env a w = Inr w' \<and> chroma_dir w' = None \<and>
           trace w' = trace w @
             [Print Clearing, Rmtree,
              Print (if is_dir env (dir a) then NoPdfFound (dir a) else DirNotFound (dir a))]"
  using assms by (auto simp: main_def emit_def clear_database_def Let_def)

theorem reset_precedes_directory_check_witness:
  "\<exists>w'. main sample_env \<lparr>reset = True, dir = ''empty''\<rparr> old_world = Inr w' \<and>
         chroma_dir w' = None \<and>
         trace w' = [Print Clearing, Rmtree, Print (NoPdfFound ''empty'')]"
proof -
  have h1: "reset \<lparr>reset = True, dir = ''empty''\<rparr>" by simp
  have h2: "chroma_dir old_world = Some [(''old.pdf:0:0'', mk_chunk ''old'' ''old.pdf'' 0)]"
    by (simp add: old_world_def)
  have h3: "\<not> is_dir sample_env (dir \<lparr>reset = True, dir = ''empty''\<rparr>) \<or>
            glob_pdf sample_env (dir \<lparr>reset = True, dir = ''empty''\<rparr>) = []"
    by (simp add: sample_env_def)
  have d: "is_dir sample_env ''empty''" by (simp add: sample_env_def)
  have t: "trace old_world = []" by (simp add: old_world_def)
  from reset_precedes_directory_check [OF h1 h2 h3] show ?thesis using d t by simp
qed

lemma fetched_append: "fetched (xs @ ys) = fetched xs @ fetched ys"
  by (induction xs rule: fetched.induct) simp_all

lemma fetched_prints: "fetched (map (\<lambda>p. Print (f p)) ps) = []"
  by (induction ps) simp_all

lemma print_file_names:
  "foldl (\<lambda>w p. emit (Print (FileName p)) w) w ps =
     w\<lparr>trace := trace w @ map (\<lambda>p. Print (FileName p)) ps\<rparr>"
  by (induction ps arbitrary: w) (simp_all add: emit_def)

lemma add_to_db_trace:
  "\<exists>evs. trace (final_world (add_to_db env cs w)) = trace w @ Connect # evs \<and>
     (case connect env (chroma_dir w) of
        Inl e \<Rightarrow> evs = []
      | Inr db \<Rightarrow> (\<exists>more. evs = Fetch (get_ids env db) # more))"
  by (auto simp: add_to_db_def emit_def Let_def split: sum.splits prod.splits option.splits)

lemma ingest_files_trace:
  "\<exists>evs. trace (final_world (ingest_files env ps w)) = trace w @ evs"
proof (induction ps arbitrary: w)
  case Nil
  show ?case by simp
next
  case (Cons p ps)
  let ?w1 = "emit (Print (Ingesting p)) w"
  show ?case
  proof (cases "load_documents env p")
    case (Inl e)
    then show ?thesis by (simp add: emit_def)
  next
    case (Inr docs)
    obtain evs where a: "trace (final_world (add_to_db env (split_documents env docs) ?w1)) =
        trace ?w1 @ Connect # evs"
      using add_to_db_trace [of env "split_documents env docs" ?w1] by blast
    show ?thesis
    proof (cases "add_to_db env (split_documents env docs) ?w1")
      case (Inl r)
      with Inr a show ?thesis by (simp add: emit_def)
    next
      case w2: (Inr w2)
      from Cons.IH [of w2] obtain evs2 where
        "trace (final_world (ingest_files env ps w2)) = trace w2 @ evs2" by blast
      with Inr w2 a show ?thesis by (simp add: emit_def)
    qed
  qed
qed

lemma ingest_files_first_fetch:
  assumes "chroma_dir w = None"
    and "\<forall>db. connect env None = Inr db \<longrightarrow> get_ids env db = []"
  shows "\<exists>evs. trace (final_world (ingest_files env ps w)) = trace w @ evs \<and>
           (case fetched evs of [] \<Rightarrow> True | ids # rest \<Rightarrow> ids = [])"
proof (cases ps)
  case Nil
  then show ?thesis by simp
next
  case (Cons p rest)
  let ?w1 = "emit (Print (Ingesting p)) w"
  have c1: "chroma_dir ?w1 = None" using assms(1) by (simp add: emit_def)
  show ?thesis
  proof (cases "load_documents env p")
    case (Inl e)
    with Cons show ?thesis by (simp add: emit_def)
  next
    case (Inr docs)
    let ?r = "add_to_db env (split_documents env docs) ?w1"
    obtain evs where a: "trace (final_world ?r) = trace ?w1 @ Connect # evs"
      and b: "case connect env None of
                Inl e \<Rightarrow> evs = []
              | Inr db \<Rightarrow> (\<exists>more. evs = Fetch (get_ids env db) # more)"
      using add_to_db_trace [of env "split_documents env docs" ?w1] c1 by auto
    have f: "case fetched evs of [] \<Rightarrow> True | ids # rest \<Rightarrow> ids = []"
      using b assms(2) by (auto split: sum.splits)
    show ?thesis
    proof (cases ?r)
      case (Inl r)
      with Cons Inr a f show ?thesis by (simp add: emit_def)
    next
      case w2: (Inr w2)
      then have "connect env None \<noteq> Inl e" for e
        using c1 by (auto simp: add_to_db_def emit_def Let_def split: sum.splits)
      with b assms(2) obtain more where evs: "evs = Fetch [] # more"
        by (auto split: sum.splits)
      obtain evs2 where "trace (final_world (ingest_files env rest w2)) = trace w2 @ evs2"
        using ingest_files_trace by blast
      with Cons Inr w2 a evs show ?thesis by (simp add: emit_def)
    qed
  qed
qed

text \<open>
  C8: \<open>clear_database\<close> leaves no store directory, and in a run with the reset flag the
  first fetch of the stored ids, if the run gets to one, returns no id. The store client
  is a parameter; what is assumed of it is that a client constructed on a missing
  directory holds no ids.
\<close>

theorem reset_then_fetch_empty:
  assumes "reset a"
    and "\<forall>db. connect env None = Inr db \<longrightarrow> get_ids env db = []"
  shows "chroma_dir (clear_database w) = None \<and>
         (case fetched (run_events env a w) of [] \<Rightarrow> True | ids # rest \<Rightarrow> ids = [])"
proof
  show "chroma_dir (clear_database w) = None"
    by (simp add: clear_database_def emit_def)
next
  let ?w1 = "clear_database (emit (Print Clearing) w)"
  have c1: "chroma_dir ?w1 = None" by (simp add: clear_database_def emit_def)
  obtain pre where t1: "trace ?w1 = trace w @ pre" and p1: "fetched pre = []"
    by (cases "chroma_dir w") (auto simp: clear_database_def emit_def)
  show "case fetched (run_events env a w) of [] \<Rightarrow> True | ids # rest \<Rightarrow> ids = []"
  proof (cases "\<not> is_dir env (dir a) \<or> sort (glob_pdf env (dir a)) = []")
    case True
    with assms(1) have "run_events env a w = pre @ [Print (if is_dir env (dir a)
        then NoPdfFound (dir a) else DirNotFound (dir a))]"
      using t1 by (auto simp: run_events_def main_def Let_def emit_def)
    then show ?thesis using p1 by (simp add: fetched_append)
  next
    case False
    let ?fs = "sort (glob_pdf env (dir a))"
    let ?w3 = "foldl (\<lambda>w p. emit (Print (FileName p)) w)
                 (emit (Print (Found (length ?fs) (dir a))) ?w1) ?fs"
    have m: "main env a w = ingest_files env ?fs ?w3"
      using False assms(1) by (simp add: main_def Let_def)
    have c3: "chroma_dir ?w3 = None"
      unfolding print_file_names using c1 by (simp add: emit_def)
    have t3: "trace ?w3 = trace w @ pre @ Print (Found (length ?fs) (dir a)) #
                map (\<lambda>p. Print (FileName p)) ?fs"
      unfolding print_file_names using t1 by (simp add: emit_def)
    from ingest_files_first_fetch [OF c3 assms(2), of ?fs] obtain evs where
      e: "trace (final_world (ingest_files env ?fs ?w3)) = trace ?w3 @ evs"
      and f: "case fetched evs of [] \<Rightarrow> True | ids # rest \<Rightarrow> ids = []"
      by blast
    have "run_events env a w =
            pre @ Print (Found (length ?fs) (dir a)) # map (\<lambda>p. Print (FileName p)) ?fs @ evs"
      unfolding run_events_def m e t3 by simp
    then have "fetched (run_events env a w) = fetched evs"
      using p1 by (simp add: fetched_append fetched_prints)
    with f show ?thesis by simp
  qed
qed

theorem reset_then_fetch_empty_witness:
  "chroma_dir (clear_database old_world) = None \<and>
   fetched (run_events sample_env \<lparr>reset = True, dir = ''sample''\<rparr> old_world) =
     [[]]"
proof -
  have h1: "reset \<lparr>reset = True, dir = ''sample''\<rparr>" by simp
  have h2: "\<forall>db. connect sample_env None = Inr db \<longrightarrow> get_ids sample_env db = []"
    by (simp add: sample_env_def)
  have "fetched (run_events sample_env \<lparr>reset = True, dir = ''sample''\<rparr> old_world) =
     [[]]"
    by code_simp
  with reset_then_fetch_empty [OF h1 h2, of old_world] show ?thesis by simp
qed

end
